theory Spec2Isabelle
  imports Complex_Main "HOL-Library.Word"
begin

section \<open>Arrays and errors\<close>

text \<open>
  The script \<open>run_metrics.py\<close> works on NumPy arrays. An array is modelled by its shape
  and its elements in row-major order, which is what \<open>reshape(H * W)\<close>, \<open>np.unique\<close>,
  the element-wise comparison \<open>label_pred == i\<close> and the masked assignment
  \<open>renumbered_label_pred[pix_loc] = v\<close> all work on. A label map holds integers of one
  of NumPy's eight integer element types, and every element is a value of that type;
  Boolean and floating-point arrays are not label maps and are not modelled. The
  two one-hot matrices are the only arrays whose element type the source fixes
  (\<open>dtype=np.int16\<close>); they are modelled as 16-bit words, and every product and sum over
  them wraps as NumPy's integer \<open>matmul\<close> does.
\<close>

datatype error = AssertionError | ValueError | IndexError | NameError | ExternalError

datatype dtype = Int8 | Int16 | Int32 | Int64 | UInt8 | UInt16 | UInt32 | UInt64

fun bits :: "dtype \<Rightarrow> nat" where
  "bits Int8 = 8" | "bits Int16 = 16" | "bits Int32 = 32" | "bits Int64 = 64"
| "bits UInt8 = 8" | "bits UInt16 = 16" | "bits UInt32 = 32" | "bits UInt64 = 64"

fun signed_type :: "dtype \<Rightarrow> bool" where
  "signed_type Int8 = True" | "signed_type Int16 = True"
| "signed_type Int32 = True" | "signed_type Int64 = True"
| "signed_type UInt8 = False" | "signed_type UInt16 = False"
| "signed_type UInt32 = False" | "signed_type UInt64 = False"

text \<open>Two's-complement wrap-around of an integer into \<open>b\<close> bits.\<close>

definition wrap_signed :: "nat \<Rightarrow> int \<Rightarrow> int" where
  "wrap_signed b x = (x + 2 ^ (b - 1)) mod 2 ^ b - 2 ^ (b - 1)"

text \<open>
  Storing an integer into an array of a given element type converts it as C does: the value
  is reduced modulo \<open>2 ^ bits\<close> into the range of the type.
\<close>

definition cast :: "dtype \<Rightarrow> int \<Rightarrow> int" where
  "cast t v = (if signed_type t then wrap_signed (bits t) v else v mod 2 ^ bits t)"

definition representable :: "dtype \<Rightarrow> int \<Rightarrow> bool" where
  "representable t v \<longleftrightarrow>
     (if signed_type t then - (2 ^ (bits t - 1)) \<le> v \<and> v < 2 ^ (bits t - 1)
      else 0 \<le> v \<and> v < 2 ^ bits t)"

record ndarray =
  shape :: "nat list"
  dtype :: dtype
  data :: "int list"

definition well_formed :: "ndarray \<Rightarrow> bool" where
  "well_formed a \<longleftrightarrow>
     length (data a) = prod_list (shape a) \<and> list_all (representable (dtype a)) (data a)"

text \<open>\<open>np.unique\<close>: the distinct values of the flattened array, ascending.\<close>

definition unique :: "int list \<Rightarrow> int list" where
  "unique xs = sort (remdups xs)"

text \<open>\<open>enumerate\<close>.\<close>

definition enumerate_list :: "'a list \<Rightarrow> (nat \<times> 'a) list" where
  "enumerate_list xs = zip [0..<length xs] xs"

text \<open>Indexing a list with a non-negative index; Python raises \<open>IndexError\<close> out of range.\<close>

definition index_checked :: "'a list \<Rightarrow> nat \<Rightarrow> error + 'a" where
  "index_checked xs k = (if k < length xs then Inr (xs ! k) else Inl IndexError)"

section \<open>The label aligner\<close>

text \<open>
  \<open>[label.reshape(H * W) == i for i in np.unique(label)]\<close> converted to \<open>np.int16\<close>:
  one row per distinct label, 1 where the pixel carries the label and 0 elsewhere.
\<close>

definition one_hot :: "int list \<Rightarrow> int \<Rightarrow> 16 word list" where
  "one_hot flat i = map (\<lambda>x. if x = i then 1 else 0) flat"

definition label_vec :: "int list \<Rightarrow> 16 word list list" where
  "label_vec flat = map (one_hot flat) (unique flat)"

text \<open>
  \<open>np.matmul(a, b.T)\<close> on two \<open>int16\<close> matrices: entry \<open>(i, j)\<close> is the sum of the
  products of row \<open>i\<close> of \<open>a\<close> and row \<open>j\<close> of \<open>b\<close>, accumulated in \<open>int16\<close>.
\<close>

definition dot :: "16 word list \<Rightarrow> 16 word list \<Rightarrow> 16 word" where
  "dot u v = sum_list (map2 (*) u v)"

definition matmul_T :: "16 word list list \<Rightarrow> 16 word list list \<Rightarrow> 16 word list list" where
  "matmul_T a b = map (\<lambda>u. map (\<lambda>v. dot u v) b) a"

text \<open>\<open>1 - vec\<close>, still \<open>int16\<close>.\<close>

definition complement :: "16 word list list \<Rightarrow> 16 word list list" where
  "complement vecs = map (map (\<lambda>x. 1 - x)) vecs"

definition intersection_matrix :: "16 word list list \<Rightarrow> 16 word list list \<Rightarrow> 16 word list list" where
  "intersection_matrix label_pred_vec label_true_vec = matmul_T label_pred_vec label_true_vec"

text \<open>
  \<open>H * W - np.matmul(1 - label_pred_vec, (1 - label_true_vec).T)\<close> subtracts an \<open>int16\<close>
  matrix from the Python integer \<open>H * W\<close>. NumPy 1.x, which the script was written for,
  picks the result type from the value of the Python integer: \<open>int16\<close> while \<open>H * W\<close>
  fits, otherwise \<open>int32\<close>, otherwise \<open>int64\<close>; the subtraction is done, and wraps, in
  that type.
\<close>

definition result_bits :: "int \<Rightarrow> nat" where
  "result_bits n = (if n < 2 ^ 15 then 16 else if n < 2 ^ 31 then 32 else 64)"

definition union_matrix :: "int \<Rightarrow> 16 word list list \<Rightarrow> 16 word list list \<Rightarrow> int list list" where
  "union_matrix hw label_pred_vec label_true_vec =
     map (map (\<lambda>m. wrap_signed (result_bits hw) (hw - sint m)))
       (matmul_T (complement label_pred_vec) (complement label_true_vec))"

text \<open>
  \<open>intersection_matrix / union_matrix\<close> is NumPy's true division, entry by entry. Its
  float64 quotients are modelled by the exact quotients: float64 division rounds the exact
  quotient to nearest, which keeps 0 and 1 fixed, keeps the order of two quotients, and keeps
  two different quotients apart as long as the denominators stay below \<open>2 ^ 37\<close>
  (the numerators are \<open>int16\<close> values).
\<close>

definition iou_matrix :: "int \<Rightarrow> 16 word list list \<Rightarrow> 16 word list list \<Rightarrow> rat list list" where
  "iou_matrix hw label_pred_vec label_true_vec =
     map2 (map2 (\<lambda>i u. of_int (sint i) / of_int u))
       (intersection_matrix label_pred_vec label_true_vec)
       (union_matrix hw label_pred_vec label_true_vec)"

text \<open>
  \<open>np.argmax\<close> of a row: a scan that keeps the first position of the largest value
  (a later value replaces the best one only when strictly larger); an empty row raises
  \<open>ValueError\<close>.
\<close>

fun argmax_from :: "rat \<Rightarrow> nat \<Rightarrow> nat \<Rightarrow> rat list \<Rightarrow> nat" where
  "argmax_from best bi i [] = bi"
| "argmax_from best bi i (x # xs) =
     (if best < x then argmax_from x i (Suc i) xs else argmax_from best bi (Suc i) xs)"

definition argmax :: "rat list \<Rightarrow> error + nat" where
  "argmax row = (case row of [] \<Rightarrow> Inl ValueError | x # xs \<Rightarrow> Inr (argmax_from x 0 1 xs))"

text \<open>
  \<open>pix_loc = label_pred == label_pred_idx; renumbered_label_pred[pix_loc] = label_true_idx\<close>:
  the output is overwritten where the predicted map carries the label. The output array has
  the element type \<open>t\<close> of the predicted map, and the stored value is converted to it.
\<close>

definition assign_where :: "dtype \<Rightarrow> int list \<Rightarrow> int \<Rightarrow> int \<Rightarrow> int list \<Rightarrow> int list" where
  "assign_where t pred_flat label_pred_idx label_true_idx out =
     map2 (\<lambda>p v. if p = label_pred_idx then cast t label_true_idx else v) pred_flat out"

text \<open>The loop over \<open>enumerate(np.unique(label_pred))\<close>, threading the output array.\<close>

fun relabel_loop ::
  "dtype \<Rightarrow> int list \<Rightarrow> int list \<Rightarrow> rat list list \<Rightarrow> (nat \<times> int) list \<Rightarrow> int list \<Rightarrow>
     error + int list"
where
  "relabel_loop t pred_flat labels_true iou [] out = Inr out"
| "relabel_loop t pred_flat labels_true iou ((i, label_pred_idx) # rest) out =
     (case index_checked iou i of
        Inl e \<Rightarrow> Inl e
      | Inr row \<Rightarrow>
          (case argmax row of
             Inl e \<Rightarrow> Inl e
           | Inr k \<Rightarrow>
               (case index_checked labels_true k of
                  Inl e \<Rightarrow> Inl e
                | Inr label_true_idx \<Rightarrow>
                    relabel_loop t pred_flat labels_true iou rest
                      (assign_where t pred_flat label_pred_idx label_true_idx out))))"

text \<open>
  \<open>guided_relabel\<close>: the shape assertion, the unpacking \<open>H, W = label_pred.shape\<close>
  (a \<open>ValueError\<close> unless the array is two-dimensional), the IOU matrix, and the loop
  started on \<open>np.zeros_like(label_pred)\<close>, an array of zeros with the shape and the
  element type of the predicted map.
\<close>

definition iou_of_maps :: "nat \<Rightarrow> nat \<Rightarrow> int list \<Rightarrow> int list \<Rightarrow> rat list list" where
  "iou_of_maps H W pred_flat true_flat =
     iou_matrix (int (H * W)) (label_vec pred_flat) (label_vec true_flat)"

definition guided_relabel :: "ndarray \<Rightarrow> ndarray \<Rightarrow> error + ndarray" where
  "guided_relabel label_pred label_true =
     (if shape label_pred \<noteq> shape label_true then Inl AssertionError
      else case shape label_pred of
        [H, W] \<Rightarrow>
          (let pred_flat = data label_pred;
               true_flat = data label_true;
               iou = iou_of_maps H W pred_flat true_flat
           in case relabel_loop (dtype label_pred) pred_flat (unique true_flat) iou
                     (enumerate_list (unique pred_flat))
                     (map (\<lambda>_. 0) pred_flat) of
                Inl e \<Rightarrow> Inl e
              | Inr out \<Rightarrow>
                  Inr \<lparr>shape = shape label_pred, dtype = dtype label_pred, data = out\<rparr>)
      | _ \<Rightarrow> Inl ValueError)"

section \<open>Pixel counts\<close>

text \<open>
  What the two matrix products count, written on the flattened maps: the pixels that carry
  label \<open>i\<close> in the first map and label \<open>j\<close> in the second, and the pixels that
  carry neither. They are used to state what the \<open>int16\<close> products hold.
\<close>

definition both_count :: "int list \<Rightarrow> int list \<Rightarrow> int \<Rightarrow> int \<Rightarrow> nat" where
  "both_count P T i j = length (filter (\<lambda>(p, t). p = i \<and> t = j) (zip P T))"

definition neither_count :: "int list \<Rightarrow> int list \<Rightarrow> int \<Rightarrow> int \<Rightarrow> nat" where
  "neither_count P T i j = length (filter (\<lambda>(p, t). p \<noteq> i \<and> t \<noteq> j) (zip P T))"

text \<open>
  The IOU as the specification words it, for label \<open>i\<close> of the predicted map and label
  \<open>j\<close> of the ground truth: the intersection is the number of pixels where both
  indicators are true, the union is \<open>H * W\<close> minus the number of pixels where both are
  false, and the IOU is their quotient. It is what \<open>iou_matrix\<close> is compared with.
\<close>

definition spec_iou :: "int list \<Rightarrow> int list \<Rightarrow> int \<Rightarrow> int \<Rightarrow> rat" where
  "spec_iou P T i j = of_nat (both_count P T i j) / of_nat (length P - neither_count P T i j)"

section \<open>Range-aware structural similarity\<close>

text \<open>
  \<open>a.max()\<close> and \<open>a.min()\<close> reduce over all elements of an array and raise
  \<open>ValueError\<close> on an array without elements.
\<close>

fun array_max :: "int list \<Rightarrow> error + int" where
  "array_max [] = Inl ValueError"
| "array_max (x # xs) = Inr (fold max xs x)"

fun array_min :: "int list \<Rightarrow> error + int" where
  "array_min [] = Inl ValueError"
| "array_min (x # xs) = Inr (fold min xs x)"

text \<open>
  \<open>a.max()\<close> and \<open>a.min()\<close> are NumPy scalars of the array's element type. Python's
  \<open>max(x, y)\<close> returns \<open>x\<close> unless \<open>y > x\<close>, and \<open>min(x, y)\<close> returns \<open>x\<close>
  unless \<open>y < x\<close>; the scalar returned keeps its type.
\<close>

definition py_max :: "int \<times> dtype \<Rightarrow> int \<times> dtype \<Rightarrow> int \<times> dtype" where
  "py_max x y = (if fst x < fst y then y else x)"

definition py_min :: "int \<times> dtype \<Rightarrow> int \<times> dtype \<Rightarrow> int \<times> dtype" where
  "py_min x y = (if fst y < fst x then y else x)"

text \<open>
  The difference of two NumPy integer scalars is computed in the common type of the two:
  the wider one when both are signed or both unsigned, the signed one when it is wider than
  the unsigned one, otherwise the next wider signed type, and \<open>float64\<close> when an unsigned
  64-bit scalar meets a signed one. An integer result wraps in its type. For \<open>float64\<close>
  the model gives the exact difference, which the float equals while the values stay below
  \<open>2 ^ 53\<close> in size.
\<close>

datatype result_type = IntegerType dtype | Float64

definition promote_types :: "dtype \<Rightarrow> dtype \<Rightarrow> result_type" where
  "promote_types s t =
     (if signed_type s = signed_type t then IntegerType (if bits s < bits t then t else s)
      else
        (let i = (if signed_type s then s else t); u = (if signed_type s then t else s)
         in if bits u < bits i then IntegerType i
            else if bits u = 8 then IntegerType Int16
            else if bits u = 16 then IntegerType Int32
            else if bits u = 32 then IntegerType Int64
            else Float64))"

definition scalar_subtract :: "int \<times> dtype \<Rightarrow> int \<times> dtype \<Rightarrow> int" where
  "scalar_subtract x y =
     (case promote_types (snd x) (snd y) of
        IntegerType t \<Rightarrow> cast t (fst x - fst y)
      | Float64 \<Rightarrow> fst x - fst y)"

text \<open>
  \<open>data_max = max(a.max(), b.max()); data_min = min(a.min(), b.min());
  data_range = data_max - data_min\<close>.
\<close>

definition data_range :: "ndarray \<Rightarrow> ndarray \<Rightarrow> error + int" where
  "data_range a b =
     (case array_max (data a) of Inl e \<Rightarrow> Inl e | Inr a_max \<Rightarrow>
     (case array_max (data b) of Inl e \<Rightarrow> Inl e | Inr b_max \<Rightarrow>
     (case array_min (data a) of Inl e \<Rightarrow> Inl e | Inr a_min \<Rightarrow>
     (case array_min (data b) of Inl e \<Rightarrow> Inl e | Inr b_min \<Rightarrow>
        Inr (scalar_subtract (py_max (a_max, dtype a) (b_max, dtype b))
                             (py_min (a_min, dtype a) (b_min, dtype b)))))))"

text \<open>
  \<open>range_aware_ssim\<close> hands both arrays and the range to \<open>ssim\<close> of \<open>utils.metrics\<close>,
  which is not part of the script and is a parameter here.
\<close>

definition range_aware_ssim ::
  "(ndarray \<Rightarrow> ndarray \<Rightarrow> int \<Rightarrow> error + 'r) \<Rightarrow> ndarray \<Rightarrow> ndarray \<Rightarrow> error + 'r" where
  "range_aware_ssim ssim a b =
     (case data_range a b of Inl e \<Rightarrow> Inl e | Inr r \<Rightarrow> ssim a b r)"

section \<open>The dataset dispatch and the batch driver\<close>

text \<open>
  The main block binds the name \<open>hparams\<close> in an \<open>if\<close>/\<open>elif\<close> without \<open>else\<close>.
  \<open>None\<close> stands for the name left unbound; reading an unbound name raises
  \<open>NameError\<close>.
\<close>

record hparams =
  is_binary :: bool
  min_frame_ratio :: rat
  min_area_ratio :: rat

definition select_hparams :: "string \<Rightarrow> hparams option" where
  "select_hparams dataset_name =
     (if dataset_name = ''retina'' then
        Some \<lparr>is_binary = True, min_frame_ratio = 1 / 2, min_area_ratio = 1 / 200\<rparr>
      else if dataset_name = ''berkeley'' then
        Some \<lparr>is_binary = False, min_frame_ratio = 1 / 2, min_area_ratio = 1 / 500\<rparr>
      else None)"

text \<open>
  The driver's collaborators (loading the three archives of one image, the two consistency
  assertions on them, \<open>segment_diffusion\<close> and the metric functions) are outside the
  script. A \<open>sample\<close> records, for one image index, whether each of them goes through;
  a \<open>site\<close> names the place where a run stops, an \<open>outcome\<close> how it ends.
\<close>

record sample =
  loads_ok :: bool
  consistent :: bool
  segment_ok :: bool
  metrics_ok :: bool

datatype site =
  FileCountAssert | Load nat | ConsistencyAssert nat | SegmentDiffusion nat | Metrics nat | Summary

datatype outcome = Completed | Failed error site

text \<open>
  The loop over \<open>image_idx\<close>: the loads, the consistency assertions, then
  \<open>segment_diffusion(hashmap, hparams)\<close>, whose argument is the first read of
  \<open>hparams\<close>, then the metrics. \<open>None\<close> means that the loop ran to its end.
\<close>

fun process_batch :: "hparams option \<Rightarrow> nat \<Rightarrow> sample list \<Rightarrow> outcome option" where
  "process_batch hp image_idx [] = None"
| "process_batch hp image_idx (s # rest) =
     (if \<not> loads_ok s then Some (Failed ExternalError (Load image_idx))
      else if \<not> consistent s then Some (Failed AssertionError (ConsistencyAssert image_idx))
      else case hp of
        None \<Rightarrow> Some (Failed NameError (SegmentDiffusion image_idx))
      | Some h \<Rightarrow>
          if \<not> segment_ok s then Some (Failed ExternalError (SegmentDiffusion image_idx))
          else if \<not> metrics_ok s then Some (Failed ExternalError (Metrics image_idx))
          else process_batch hp (Suc image_idx) rest)"

text \<open>
  The main block from the dispatch on: the dispatch, the two assertions on the numbers of
  files, the loop, and the summary, which starts by reading \<open>hparams.is_binary\<close>.
\<close>

definition run_metrics :: "string \<Rightarrow> sample list \<Rightarrow> nat \<Rightarrow> nat \<Rightarrow> outcome" where
  "run_metrics dataset_name baselines n_kmeans n_diffusion =
     (let hp = select_hparams dataset_name in
      if length baselines \<noteq> n_kmeans then Failed AssertionError FileCountAssert
      else if length baselines \<noteq> n_diffusion then Failed AssertionError FileCountAssert
      else case process_batch hp 0 baselines of
        Some failure \<Rightarrow> failure
      | None \<Rightarrow> (case hp of None \<Rightarrow> Failed NameError Summary | Some h \<Rightarrow> Completed))"

section \<open>Facts about the building blocks\<close>

lemma set_unique: "set (unique xs) = set xs"
  by (simp add: unique_def)

lemma distinct_unique: "distinct (unique xs)"
  by (simp add: unique_def)

lemma sorted_unique: "sorted (unique xs)"
  by (simp add: unique_def)

lemma unique_Nil_iff: "unique xs = [] \<longleftrightarrow> xs = []"
  using set_unique [of xs] by (metis set_empty)

text \<open>
  The scan of \<open>argmax\<close> keeps an invariant on the part of the row already seen: the best
  value is the largest so far and every value before its position is strictly smaller.
\<close>

lemma argmax_from_inv:
  "row = pre @ xs \<Longrightarrow> length pre = i \<Longrightarrow> bi < i \<Longrightarrow> row ! bi = best \<Longrightarrow>
   \<forall>k<i. row ! k \<le> best \<Longrightarrow> \<forall>k<bi. row ! k < best \<Longrightarrow>
   argmax_from best bi i xs < length row \<and>
   (\<forall>k<length row. row ! k \<le> row ! argmax_from best bi i xs) \<and>
   (\<forall>k<argmax_from best bi i xs. row ! k < row ! argmax_from best bi i xs)"
proof (induction xs arbitrary: pre best bi i)
  case Nil
  then show ?case by auto
next
  case (Cons x xs)
  have row: "row = (pre @ [x]) @ xs" and len: "length (pre @ [x]) = Suc i"
    using Cons.prems by simp_all
  have xi: "row ! i = x"
    using Cons.prems by (simp add: nth_append)
  show ?case
  proof (cases "best < x")
    case True
    have a: "\<forall>k<Suc i. row ! k \<le> x"
      using Cons.prems(5) True xi by (auto simp: less_Suc_eq intro: order.trans less_imp_le)
    have b: "\<forall>k<i. row ! k < x"
      using Cons.prems(5) True by (auto intro: le_less_trans)
    show ?thesis
      using Cons.IH [OF row len _ xi a b] True by simp
  next
    case False
    have a: "\<forall>k<Suc i. row ! k \<le> best"
      using Cons.prems(5) False xi by (auto simp: less_Suc_eq)
    have c: "bi < Suc i" using Cons.prems(3) by simp
    show ?thesis
      using Cons.IH [OF row len c Cons.prems(4) a Cons.prems(6)] False by simp
  qed
qed

lemma argmax_spec:
  assumes "row \<noteq> []"
  shows "\<exists>j. argmax row = Inr j \<and> j < length row \<and>
             (\<forall>k<length row. row ! k \<le> row ! j) \<and> (\<forall>k<j. row ! k < row ! j)"
proof -
  obtain x xs where row: "row = x # xs"
    using assms by (cases row) auto
  have "argmax_from x 0 1 xs < length row \<and>
        (\<forall>k<length row. row ! k \<le> row ! argmax_from x 0 1 xs) \<and>
        (\<forall>k<argmax_from x 0 1 xs. row ! k < row ! argmax_from x 0 1 xs)"
    by (rule argmax_from_inv [where pre = "[x]"]) (simp_all add: row)
  then show ?thesis
    by (simp add: argmax_def row)
qed

lemma length_label_vec: "length (label_vec flat) = length (unique flat)"
  by (simp add: label_vec_def)

lemma length_iou_matrix: "length (iou_matrix hw pv tv) = length pv"
  by (simp add: iou_matrix_def intersection_matrix_def union_matrix_def matmul_T_def complement_def)

lemma length_iou_row:
  "i < length pv \<Longrightarrow> length (iou_matrix hw pv tv ! i) = length tv"
  by (simp add: iou_matrix_def intersection_matrix_def union_matrix_def matmul_T_def complement_def)

lemma iou_entry:
  "i < length pv \<Longrightarrow> j < length tv \<Longrightarrow>
   iou_matrix hw pv tv ! i ! j =
     of_int (sint (dot (pv ! i) (tv ! j))) /
     of_int (wrap_signed (result_bits hw)
               (hw - sint (dot (map (\<lambda>x. 1 - x) (pv ! i)) (map (\<lambda>x. 1 - x) (tv ! j)))))"
  by (simp add: iou_matrix_def intersection_matrix_def union_matrix_def matmul_T_def complement_def)

lemma length_assign_where:
  "length out = length pred_flat \<Longrightarrow> length (assign_where t pred_flat l v out) = length pred_flat"
  by (simp add: assign_where_def)

lemma nth_assign_where:
  "length out = length pred_flat \<Longrightarrow> k < length pred_flat \<Longrightarrow>
   assign_where t pred_flat l v out ! k = (if pred_flat ! k = l then cast t v else out ! k)"
  by (simp add: assign_where_def)

lemma mem_enumerate_list:
  "(i, l) \<in> set (enumerate_list xs) \<longleftrightarrow> i < length xs \<and> l = xs ! i"
proof
  assume "(i, l) \<in> set (enumerate_list xs)"
  then obtain n where "[0..<length xs] ! n = i" "xs ! n = l" "n < length xs"
    by (auto simp: enumerate_list_def in_set_zip)
  then show "i < length xs \<and> l = xs ! i" by auto
next
  assume a: "i < length xs \<and> l = xs ! i"
  then have "[0..<length xs] ! i = i \<and> xs ! i = l \<and> i < length [0..<length xs] \<and> i < length xs"
    by simp
  then show "(i, l) \<in> set (enumerate_list xs)"
    unfolding enumerate_list_def in_set_zip fst_conv snd_conv by blast
qed

section \<open>Conversion to an element type\<close>

lemma bits_pos: "0 < bits t"
  by (cases t) simp_all

lemma wrap_signed_range:
  assumes "0 < b"
  shows "- (2 ^ (b - 1)) \<le> wrap_signed b x \<and> wrap_signed b x < 2 ^ (b - 1)"
proof -
  have p: "(2::int) ^ b = 2 * 2 ^ (b - 1)"
    using assms by (cases b) simp_all
  have "0 \<le> (x + 2 ^ (b - 1)) mod 2 ^ b" "(x + 2 ^ (b - 1)) mod 2 ^ b < 2 ^ b"
    by simp_all
  then show ?thesis unfolding wrap_signed_def p by linarith
qed

lemma wrap_signed_fixed:
  assumes "0 < b" and "- (2 ^ (b - 1)) \<le> x" and "x < 2 ^ (b - 1)"
  shows "wrap_signed b x = x"
proof -
  have p: "(2::int) ^ b = 2 * 2 ^ (b - 1)"
    using assms(1) by (cases b) simp_all
  have "(x + 2 ^ (b - 1)) mod 2 ^ b = x + 2 ^ (b - 1)"
    using assms(2,3) p by (intro mod_pos_pos_trivial) linarith+
  then show ?thesis by (simp add: wrap_signed_def)
qed

lemma cast_representable: "representable t v \<Longrightarrow> cast t v = v"
  by (auto simp: representable_def cast_def bits_pos intro: wrap_signed_fixed split: if_splits)

lemma representable_cast: "representable t (cast t v)"
  using wrap_signed_range [OF bits_pos, of t v] by (simp add: representable_def cast_def)

lemma cast_zero: "cast t 0 = 0"
  by (rule cast_representable) (simp add: representable_def)

lemma well_formed_representable:
  "well_formed a \<Longrightarrow> v \<in> set (data a) \<Longrightarrow> representable (dtype a) v"
  by (simp add: well_formed_def list_all_iff)

section \<open>The relabelling loop in closed form\<close>

text \<open>
  The labels the loop runs over are distinct, so every pixel is written by exactly one
  iteration: the one of the label it carries.
\<close>

lemma relabel_loop_result:
  "length out = length pred_flat \<Longrightarrow> distinct (map snd ps) \<Longrightarrow>
   \<forall>(i, l)\<in>set ps. i < length iou \<and> iou ! i \<noteq> [] \<and> length (iou ! i) \<le> length labels_true \<Longrightarrow>
   \<exists>out'. relabel_loop t pred_flat labels_true iou ps out = Inr out' \<and>
          length out' = length pred_flat \<and>
          (\<forall>k<length pred_flat.
             (pred_flat ! k \<notin> snd ` set ps \<longrightarrow> out' ! k = out ! k) \<and>
             (\<forall>i. (i, pred_flat ! k) \<in> set ps \<longrightarrow>
                  (\<exists>j. argmax (iou ! i) = Inr j \<and> out' ! k = cast t (labels_true ! j))))"
proof (induction ps arbitrary: out)
  case Nil
  then show ?case by simp
next
  case (Cons p rest)
  obtain i l where p: "p = (i, l)" by (cases p)
  have i: "i < length iou" and ne: "iou ! i \<noteq> []" and le: "length (iou ! i) \<le> length labels_true"
    using Cons.prems(3) p by auto
  obtain j where j: "argmax (iou ! i) = Inr j" "j < length (iou ! i)"
    using argmax_spec [OF ne] by blast
  define out1 where "out1 = assign_where t pred_flat l (labels_true ! j) out"
  have len1: "length out1 = length pred_flat"
    using Cons.prems(1) by (simp add: out1_def length_assign_where)
  have d: "distinct (map snd rest)" and fresh: "l \<notin> snd ` set rest"
    using Cons.prems(2) p by auto
  have r: "\<forall>(i, l)\<in>set rest. i < length iou \<and> iou ! i \<noteq> [] \<and> length (iou ! i) \<le> length labels_true"
    using Cons.prems(3) by auto
  obtain out' where o: "relabel_loop t pred_flat labels_true iou rest out1 = Inr out'"
      "length out' = length pred_flat"
      "\<forall>k<length pred_flat.
         (pred_flat ! k \<notin> snd ` set rest \<longrightarrow> out' ! k = out1 ! k) \<and>
         (\<forall>i. (i, pred_flat ! k) \<in> set rest \<longrightarrow>
              (\<exists>j. argmax (iou ! i) = Inr j \<and> out' ! k = cast t (labels_true ! j)))"
    using Cons.IH [OF len1 d r] by blast
  have step: "relabel_loop t pred_flat labels_true iou (p # rest) out = Inr out'"
    using i j le o(1) by (simp add: p index_checked_def out1_def)
  have "\<forall>k<length pred_flat.
          (pred_flat ! k \<notin> snd ` set (p # rest) \<longrightarrow> out' ! k = out ! k) \<and>
          (\<forall>i'. (i', pred_flat ! k) \<in> set (p # rest) \<longrightarrow>
               (\<exists>j. argmax (iou ! i') = Inr j \<and> out' ! k = cast t (labels_true ! j)))"
  proof (intro allI impI conjI)
    fix k assume k: "k < length pred_flat" and "pred_flat ! k \<notin> snd ` set (p # rest)"
    then have "pred_flat ! k \<noteq> l" "pred_flat ! k \<notin> snd ` set rest"
      by (auto simp: p)
    then show "out' ! k = out ! k"
      using o(3) k Cons.prems(1) by (simp add: out1_def nth_assign_where)
  next
    fix k i' assume k: "k < length pred_flat" and mem: "(i', pred_flat ! k) \<in> set (p # rest)"
    show "\<exists>j. argmax (iou ! i') = Inr j \<and> out' ! k = cast t (labels_true ! j)"
    proof (cases "(i', pred_flat ! k) \<in> set rest")
      case True
      then show ?thesis using o(3) k by blast
    next
      case False
      then have eq: "i' = i" "pred_flat ! k = l" using mem p by auto
      then have "out' ! k = out1 ! k" using o(3) k fresh by simp
      then have "out' ! k = cast t (labels_true ! j)"
        using eq k Cons.prems(1) by (simp add: out1_def nth_assign_where)
      then show ?thesis using j(1) eq by blast
    qed
  qed
  then show ?case using step o(2) by blast
qed

lemma guided_relabel_closed:
  assumes wfA: "well_formed A" and wfB: "well_formed B"
    and sh: "shape A = shape B" and hw: "shape A = [H, W]"
  shows "\<exists>out. guided_relabel A B = Inr \<lparr>shape = shape A, dtype = dtype A, data = out\<rparr> \<and>
           length out = length (data A) \<and>
           (\<forall>i<length (unique (data A)). \<exists>j<length (unique (data B)).
               argmax (iou_of_maps H W (data A) (data B) ! i) = Inr j \<and>
               (\<forall>k<length (data A). data A ! k = unique (data A) ! i \<longrightarrow>
                    out ! k = cast (dtype A) (unique (data B) ! j)))"
proof -
  let ?P = "data A" and ?T = "data B"
  let ?iou = "iou_of_maps H W ?P ?T"
  let ?ps = "enumerate_list (unique ?P)"
  have len: "length ?P = length ?T"
    using wfA wfB sh by (simp add: well_formed_def)
  have rows: "length ?iou = length (unique ?P)"
    by (simp add: iou_of_maps_def length_iou_matrix length_label_vec)
  have row: "length (?iou ! i) = length (unique ?T)" if "i < length (unique ?P)" for i
    using that by (simp add: iou_of_maps_def length_iou_row length_label_vec)
  have neT: "unique ?T \<noteq> []" if "i < length (unique ?P)" for i
  proof -
    from that have "unique ?P \<noteq> []" by auto
    then have "?P \<noteq> []" by (simp add: unique_Nil_iff)
    then have "?T \<noteq> []" using len by auto
    then show ?thesis by (simp add: unique_Nil_iff)
  qed
  have snd_ps: "map snd ?ps = unique ?P"
    by (simp add: enumerate_list_def)
  have mem_ps: "(i, l) \<in> set ?ps \<longleftrightarrow> i < length (unique ?P) \<and> l = unique ?P ! i" for i l
    by (rule mem_enumerate_list)
  have c: "\<forall>(i, l)\<in>set ?ps. i < length ?iou \<and> ?iou ! i \<noteq> [] \<and> length (?iou ! i) \<le> length (unique ?T)"
  proof (clarify)
    fix i l assume "(i, l) \<in> set ?ps"
    then have i: "i < length (unique ?P)" by (simp add: mem_ps)
    have "length (?iou ! i) \<noteq> 0" using row [OF i] neT [OF i] by simp
    then show "i < length ?iou \<and> ?iou ! i \<noteq> [] \<and> length (?iou ! i) \<le> length (unique ?T)"
      using i rows row [OF i] by auto
  qed
  have d: "distinct (map snd ?ps)"
    by (simp add: snd_ps distinct_unique)
  have l0: "length (map (\<lambda>_. 0::int) ?P) = length ?P" by simp
  obtain out where o: "relabel_loop (dtype A) ?P (unique ?T) ?iou ?ps (map (\<lambda>_. 0) ?P) = Inr out"
      "length out = length ?P"
      "\<forall>k<length ?P.
         (?P ! k \<notin> snd ` set ?ps \<longrightarrow> out ! k = map (\<lambda>_. 0) ?P ! k) \<and>
         (\<forall>i. (i, ?P ! k) \<in> set ?ps \<longrightarrow>
              (\<exists>j. argmax (?iou ! i) = Inr j \<and> out ! k = cast (dtype A) (unique ?T ! j)))"
    using relabel_loop_result [OF l0 d c] by blast
  have res: "guided_relabel A B = Inr \<lparr>shape = shape A, dtype = dtype A, data = out\<rparr>"
  proof -
    have "shape B = [H, W]" using sh hw by simp
    then show ?thesis
      unfolding guided_relabel_def using hw o(1) by (simp add: Let_def)
  qed
  have "\<exists>j<length (unique ?T). argmax (?iou ! i) = Inr j \<and>
          (\<forall>k<length ?P. ?P ! k = unique ?P ! i \<longrightarrow> out ! k = cast (dtype A) (unique ?T ! j))"
    if i: "i < length (unique ?P)" for i
  proof -
    have ne: "?iou ! i \<noteq> []" using row [OF i] neT [OF i] by auto
    obtain j where j: "argmax (?iou ! i) = Inr j" "j < length (?iou ! i)"
      using argmax_spec [OF ne] by blast
    have "out ! k = cast (dtype A) (unique ?T ! j)" if k: "k < length ?P" and e: "?P ! k = unique ?P ! i" for k
    proof -
      have "(i, ?P ! k) \<in> set ?ps" using i e by (simp add: mem_ps)
      then obtain j' where "argmax (?iou ! i) = Inr j'" "out ! k = cast (dtype A) (unique ?T ! j')"
        using o(3) k by blast
      then show ?thesis using j(1) by simp
    qed
    then show ?thesis using j row [OF i] by auto
  qed
  then show ?thesis using res o(2) by blast
qed

section \<open>Maps of at most 32767 pixels\<close>

text \<open>
  The product of two one-hot rows is the \<open>int16\<close> image of a pixel count. While the
  map has at most 32767 pixels no count wraps: every entry of the IOU matrix is the
  intersection over the union, it lies between 0 and 1, every union is at least 1, and
  relabelling a map against itself gives the map back. Whatever the size (below NumPy's
  limit of \<open>2 ^ 63\<close> elements) no union is 0, so the division never has a zero
  denominator.
\<close>

lemma dot_one_hot: "dot (one_hot P i) (one_hot T j) = of_nat (both_count P T i j)"
proof (induction P arbitrary: T)
  case Nil
  then show ?case by (simp add: dot_def one_hot_def both_count_def)
next
  case (Cons p P)
  show ?case
  proof (cases T)
    case Nil
    then show ?thesis by (simp add: dot_def one_hot_def both_count_def)
  next
    case (Cons t T')
    have "dot (one_hot (p # P) i) (one_hot (t # T') j) =
          (if p = i \<and> t = j then 1 else 0) + dot (one_hot P i) (one_hot T' j)"
      by (simp add: dot_def one_hot_def)
    also have "\<dots> = of_nat (both_count (p # P) (t # T') i j)"
      by (simp add: Cons.IH both_count_def)
    finally show ?thesis by (simp add: Cons)
  qed
qed

lemma dot_complement_one_hot:
  "dot (map (\<lambda>x. 1 - x) (one_hot P i)) (map (\<lambda>x. 1 - x) (one_hot T j)) =
     of_nat (neither_count P T i j)"
proof (induction P arbitrary: T)
  case Nil
  then show ?case by (simp add: dot_def one_hot_def neither_count_def)
next
  case (Cons p P)
  show ?case
  proof (cases T)
    case Nil
    then show ?thesis by (simp add: dot_def one_hot_def neither_count_def)
  next
    case (Cons t T')
    have "dot (map (\<lambda>x. 1 - x) (one_hot (p # P) i)) (map (\<lambda>x. 1 - x) (one_hot (t # T') j)) =
          (if p \<noteq> i \<and> t \<noteq> j then 1 else 0) +
          dot (map (\<lambda>x. 1 - x) (one_hot P i)) (map (\<lambda>x. 1 - x) (one_hot T' j))"
      by (simp add: dot_def one_hot_def)
    also have "\<dots> = of_nat (neither_count (p # P) (t # T') i j)"
      by (simp add: Cons.IH neither_count_def)
    finally show ?thesis by (simp add: Cons)
  qed
qed

lemma counts_le: "both_count P T i j + neither_count P T i j \<le> length P"
proof (induction P arbitrary: T)
  case Nil
  then show ?case by (simp add: both_count_def neither_count_def)
next
  case (Cons p P)
  show ?case
  proof (cases T)
    case Nil
    then show ?thesis by (simp add: both_count_def neither_count_def)
  next
    case (Cons t T')
    have "both_count (p # P) (t # T') i j + neither_count (p # P) (t # T') i j
          \<le> Suc (both_count P T' i j + neither_count P T' i j)"
      by (simp add: both_count_def neither_count_def)
    then show ?thesis using Cons.IH [of T'] Cons by simp
  qed
qed

lemma neither_count_le: "neither_count P T i j \<le> length P"
  using counts_le [of P T i j] by simp

lemma neither_count_less:
  "i \<in> set P \<Longrightarrow> neither_count P T i j < length P"
proof (induction P arbitrary: T)
  case Nil
  then show ?case by simp
next
  case (Cons p P)
  show ?case
  proof (cases T)
    case Nil
    then show ?thesis by (simp add: neither_count_def)
  next
    case T: (Cons t T')
    show ?thesis
    proof (cases "p = i")
      case True
      then have "neither_count (p # P) (t # T') i j = neither_count P T' i j"
        by (simp add: neither_count_def)
      then show ?thesis using neither_count_le [of P T' i j] T by simp
    next
      case False
      then have "i \<in> set P" using Cons.prems by simp
      then have "neither_count P T' i j < length P" by (rule Cons.IH)
      moreover have "neither_count (p # P) (t # T') i j \<le> Suc (neither_count P T' i j)"
        by (simp add: neither_count_def)
      ultimately show ?thesis using T by simp
    qed
  qed
qed

lemma sint_count: "n < 2 ^ 15 \<Longrightarrow> sint (of_nat n :: 16 word) = int n"
proof -
  assume "n < 2 ^ 15"
  then have "int n < 2 ^ 15" by (metis of_nat_less_iff of_nat_numeral of_nat_power)
  then have "signed_take_bit 15 (int n) = int n"
    by (intro signed_take_bit_int_eq_self) simp_all
  then show ?thesis
    by (simp add: signed_of_nat)
qed

lemma wrap_signed_id: "0 < b \<Longrightarrow> 0 \<le> x \<Longrightarrow> x < 2 ^ (b - 1) \<Longrightarrow> wrap_signed b x = x"
proof -
  assume b: "0 < b" and x: "0 \<le> x" "x < 2 ^ (b - 1)"
  have p: "(2::int) ^ b = 2 * 2 ^ (b - 1)"
    using b by (cases b) simp_all
  have "(x + 2 ^ (b - 1)) mod 2 ^ b = x + 2 ^ (b - 1)"
    using x p by (intro mod_pos_pos_trivial) auto
  then show ?thesis by (simp add: wrap_signed_def)
qed

lemma nth_label_vec: "i < length (unique P) \<Longrightarrow> label_vec P ! i = one_hot P (unique P ! i)"
  by (simp add: label_vec_def)

lemma iou_matrix_entry_counts:
  assumes "i < length (unique P)" and "j < length (unique T)"
  shows "iou_matrix hw (label_vec P) (label_vec T) ! i ! j =
     of_int (sint (of_nat (both_count P T (unique P ! i) (unique T ! j)) :: 16 word)) /
     of_int (wrap_signed (result_bits hw)
               (hw - sint (of_nat (neither_count P T (unique P ! i) (unique T ! j)) :: 16 word)))"
  using assms
  by (simp add: iou_entry length_label_vec nth_label_vec dot_one_hot dot_complement_one_hot)

lemma union_matrix_entry_counts:
  assumes "i < length (unique P)" and "j < length (unique T)"
  shows "union_matrix hw (label_vec P) (label_vec T) ! i ! j =
     wrap_signed (result_bits hw)
       (hw - sint (of_nat (neither_count P T (unique P ! i) (unique T ! j)) :: 16 word))"
  using assms
  by (simp add: union_matrix_def matmul_T_def complement_def length_label_vec nth_label_vec
      dot_complement_one_hot)

lemma int_less_2p: "n < 2 ^ k \<Longrightarrow> int n < 2 ^ k"
  by (metis of_nat_less_iff of_nat_numeral of_nat_power)

lemma small_entry:
  assumes small: "length P < 2 ^ 15"
    and i: "i < length (unique P)" and j: "j < length (unique T)"
  shows "iou_matrix (int (length P)) (label_vec P) (label_vec T) ! i ! j =
           of_nat (both_count P T (unique P ! i) (unique T ! j)) /
           of_nat (length P - neither_count P T (unique P ! i) (unique T ! j))"
    and "union_matrix (int (length P)) (label_vec P) (label_vec T) ! i ! j =
           int (length P - neither_count P T (unique P ! i) (unique T ! j))"
proof -
  let ?c1 = "both_count P T (unique P ! i) (unique T ! j)"
  let ?c2 = "neither_count P T (unique P ! i) (unique T ! j)"
  have c: "?c1 + ?c2 \<le> length P" by (rule counts_le)
  have c1: "?c1 < 2 ^ 15" and c2: "?c2 < 2 ^ 15" using c small by simp_all
  have hw: "int (length P) < 2 ^ 15" using small by (rule int_less_2p)
  have bits: "result_bits (int (length P)) = 16" using hw by (simp add: result_bits_def)
  have d: "int (length P) - int ?c2 = int (length P - ?c2)" using c by simp
  have "length P - ?c2 < 2 ^ 15" using small by simp
  then have "int (length P - ?c2) < 2 ^ 15" by (rule int_less_2p)
  then have w: "wrap_signed 16 (int (length P - ?c2)) = int (length P - ?c2)"
    by (intro wrap_signed_id) simp_all
  have u: "wrap_signed (result_bits (int (length P))) (int (length P) - sint (of_nat ?c2 :: 16 word))
        = int (length P - ?c2)"
    unfolding bits sint_count [OF c2] d w ..
  show "iou_matrix (int (length P)) (label_vec P) (label_vec T) ! i ! j
          = of_nat ?c1 / of_nat (length P - ?c2)"
    unfolding iou_matrix_entry_counts [OF i j] u sint_count [OF c1] by simp
  show "union_matrix (int (length P)) (label_vec P) (label_vec T) ! i ! j = int (length P - ?c2)"
    unfolding union_matrix_entry_counts [OF i j] u ..
qed

lemma iou_unit_interval_small:
  assumes len: "length P = H * W" and small: "H * W < 2 ^ 15"
    and i: "i < length (unique P)" and j: "j < length (unique T)"
  shows "0 \<le> iou_of_maps H W P T ! i ! j \<and> iou_of_maps H W P T ! i ! j \<le> 1 \<and>
         1 \<le> union_matrix (int (H * W)) (label_vec P) (label_vec T) ! i ! j"
proof -
  let ?c1 = "both_count P T (unique P ! i) (unique T ! j)"
  let ?c2 = "neither_count P T (unique P ! i) (unique T ! j)"
  have s: "length P < 2 ^ 15" using len small by simp
  have e: "iou_of_maps H W P T = iou_matrix (int (length P)) (label_vec P) (label_vec T)"
    unfolding iou_of_maps_def len ..
  have "unique P ! i \<in> set P" using i set_unique [of P] nth_mem by blast
  then have lt: "?c2 < length P" by (rule neither_count_less)
  have c: "?c1 + ?c2 \<le> length P" by (rule counts_le)
  have pos: "(0::rat) < of_nat (length P - ?c2)" using lt by simp
  have le: "(of_nat ?c1 :: rat) \<le> of_nat (length P - ?c2)"
    using c unfolding of_nat_le_iff by simp
  have 1: "(0::rat) \<le> of_nat ?c1 / of_nat (length P - ?c2)" by simp
  have 2: "(of_nat ?c1 :: rat) / of_nat (length P - ?c2) \<le> 1"
    using pos le by (simp only: divide_le_eq_1_pos)
  have 3: "1 \<le> int (length P - ?c2)" using lt by simp
  show ?thesis
    unfolding e len [symmetric] small_entry [OF s i j] using 1 2 3 by blast
qed

lemma wrap_signed_nonzero:
  assumes b: "0 < b" and x: "0 < x" "x < 2 ^ b"
  shows "wrap_signed b x \<noteq> 0"
proof
  assume "wrap_signed b x = 0"
  then have e: "(x + 2 ^ (b - 1)) mod 2 ^ b = 2 ^ (b - 1)"
    by (simp add: wrap_signed_def)
  have p: "(2::int) ^ b = 2 * 2 ^ (b - 1)"
    using b by (cases b) simp_all
  have h: "(2::int) ^ (b - 1) mod 2 ^ b = 2 ^ (b - 1)"
    by (intro mod_pos_pos_trivial) (simp_all add: p)
  have "x mod 2 ^ b = ((x + 2 ^ (b - 1)) - 2 ^ (b - 1)) mod 2 ^ b" by simp
  also have "\<dots> = ((x + 2 ^ (b - 1)) mod 2 ^ b - 2 ^ (b - 1) mod 2 ^ b) mod 2 ^ b"
    by (rule mod_diff_eq [symmetric])
  also have "\<dots> = 0" unfolding e h by simp
  finally have "x mod 2 ^ b = 0" .
  moreover have "x mod 2 ^ b = x"
    using x by (intro mod_pos_pos_trivial) simp_all
  ultimately show False using x(1) by simp
qed

lemma union_never_zero:
  assumes len: "length P = H * W" and bound: "H * W < 2 ^ 63"
    and i: "i < length (unique P)" and j: "j < length (unique T)"
  shows "union_matrix (int (H * W)) (label_vec P) (label_vec T) ! i ! j \<noteq> 0"
proof (cases "H * W < 2 ^ 15")
  case True
  then show ?thesis using iou_unit_interval_small [OF len True i j] by simp
next
  case False
  define m where "m = sint (of_nat (neither_count P T (unique P ! i) (unique T ! j)) :: 16 word)"
  define hw where "hw = int (H * W)"
  have "2 ^ 15 \<le> H * W" using False by simp
  then have "int (2 ^ 15) \<le> int (H * W)" unfolding of_nat_le_iff .
  then have lo: "2 ^ 15 \<le> hw" unfolding hw_def by simp
  have hi: "hw < 2 ^ 63" unfolding hw_def using bound by (rule int_less_2p)
  have s: "- (2 ^ 15) \<le> m" "m < 2 ^ 15"
    unfolding m_def
    using sint_ge [of "of_nat (neither_count P T (unique P ! i) (unique T ! j)) :: 16 word"]
      sint_lt [of "of_nat (neither_count P T (unique P ! i) (unique T ! j)) :: 16 word"]
    by simp_all
  have pos: "0 < hw - m" using lo s by simp
  have "wrap_signed (result_bits hw) (hw - m) \<noteq> 0"
  proof (cases "hw < 2 ^ 31")
    case True
    then have b: "result_bits hw = 32" using lo by (simp add: result_bits_def)
    have "hw - m < 2 ^ 32" using True s by simp
    then show ?thesis unfolding b using pos by (intro wrap_signed_nonzero) simp_all
  next
    case F: False
    then have b: "result_bits hw = 64" using lo by (simp add: result_bits_def)
    have "hw - m < 2 ^ 64" using hi s by simp
    then show ?thesis unfolding b using pos by (intro wrap_signed_nonzero) simp_all
  qed
  then show ?thesis
    unfolding union_matrix_entry_counts [OF i j] hw_def m_def .
qed

lemma both_count_self_other: "a \<noteq> b \<Longrightarrow> both_count P P a b = 0"
  by (induction P) (simp_all add: both_count_def)

lemma self_counts: "both_count P P a a + neither_count P P a a = length P"
  by (induction P) (simp_all add: both_count_def neither_count_def)

lemma self_row_small:
  assumes small: "length P < 2 ^ 15"
    and i: "i < length (unique P)" and j: "j < length (unique P)"
  shows "iou_matrix (int (length P)) (label_vec P) (label_vec P) ! i ! j = (if i = j then 1 else 0)"
proof (cases "i = j")
  case True
  let ?a = "unique P ! i"
  have "?a \<in> set P" using i set_unique [of P] nth_mem by blast
  then have "neither_count P P ?a ?a < length P" by (rule neither_count_less)
  then have pos: "0 < length P - neither_count P P ?a ?a" by simp
  have eq: "both_count P P ?a ?a = length P - neither_count P P ?a ?a"
    using self_counts [of P ?a] by simp
  have "iou_matrix (int (length P)) (label_vec P) (label_vec P) ! i ! i =
          of_nat (both_count P P ?a ?a) / of_nat (length P - neither_count P P ?a ?a)"
    by (rule small_entry(1) [OF small i i])
  also have "\<dots> = 1" unfolding eq using pos by simp
  finally show ?thesis using True by simp
next
  case False
  then have "unique P ! i \<noteq> unique P ! j"
    using i j distinct_unique [of P] by (simp add: nth_eq_iff_index_eq)
  then have z: "both_count P P (unique P ! i) (unique P ! j) = 0"
    by (rule both_count_self_other)
  have "iou_matrix (int (length P)) (label_vec P) (label_vec P) ! i ! j = 0"
    unfolding small_entry(1) [OF small i j] z by simp
  then show ?thesis using False by simp
qed

lemma guided_relabel_self_small:
  assumes wf: "well_formed A" and hw: "shape A = [H, W]" and small: "H * W < 2 ^ 15"
  shows "guided_relabel A A = Inr A"
proof -
  let ?P = "data A"
  have len: "length ?P = H * W" using wf hw by (simp add: well_formed_def)
  have s: "length ?P < 2 ^ 15" using len small by simp
  have e: "iou_of_maps H W ?P ?P = iou_matrix (int (length ?P)) (label_vec ?P) (label_vec ?P)"
    unfolding iou_of_maps_def len ..
  obtain out where o: "guided_relabel A A = Inr \<lparr>shape = shape A, dtype = dtype A, data = out\<rparr>"
      "length out = length ?P"
      "\<forall>i<length (unique ?P). \<exists>j<length (unique ?P).
          argmax (iou_of_maps H W ?P ?P ! i) = Inr j \<and>
          (\<forall>k<length ?P. ?P ! k = unique ?P ! i \<longrightarrow> out ! k = cast (dtype A) (unique ?P ! j))"
    using guided_relabel_closed [OF wf wf refl hw] by blast
  have "out ! k = ?P ! k" if k: "k < length ?P" for k
  proof -
    have "?P ! k \<in> set (unique ?P)" using k by (simp add: set_unique)
    then obtain i where i: "i < length (unique ?P)" "unique ?P ! i = ?P ! k"
      by (auto simp: in_set_conv_nth)
    obtain j where j: "j < length (unique ?P)" "argmax (iou_of_maps H W ?P ?P ! i) = Inr j"
        "\<forall>k<length ?P. ?P ! k = unique ?P ! i \<longrightarrow> out ! k = cast (dtype A) (unique ?P ! j)"
      using o(3) i(1) by blast
    let ?row = "iou_of_maps H W ?P ?P ! i"
    have rl: "length ?row = length (unique ?P)"
      using i(1) by (simp add: iou_of_maps_def length_iou_row length_label_vec)
    then have "?row \<noteq> []" using i(1) by auto
    from argmax_spec [OF this] j(2) rl
    have "\<forall>k<length (unique ?P). ?row ! k \<le> ?row ! j" by auto
    then have "?row ! i \<le> ?row ! j" using i(1) by blast
    moreover have "?row ! i = 1" "?row ! j = (if i = j then 1 else 0)"
      unfolding e using self_row_small [OF s i(1) i(1)] self_row_small [OF s i(1) j(1)] by simp_all
    ultimately have "i = j" by (cases "i = j") simp_all
    then have "out ! k = cast (dtype A) (?P ! k)" using j(3) k i(2) by simp
    moreover have "representable (dtype A) (?P ! k)"
      using wf k by (intro well_formed_representable) simp_all
    ultimately show ?thesis by (simp add: cast_representable)
  qed
  then have "out = ?P" using o(2) by (simp add: list_eq_iff_nth_eq)
  then show ?thesis using o(1) by simp
qed

section \<open>Long rows: counts beyond the range of \<open>int16\<close>\<close>

lemma remdups_replicate_eq: "remdups (replicate n a) = (if n = 0 then [] else [a])"
  by (induction n) auto

lemma remdups_replicate_snoc:
  "a \<noteq> b \<Longrightarrow> remdups (replicate n a @ [b]) = (if n = 0 then [b] else [a, b])"
  by (induction n) auto

lemma unique_replicate: "0 < n \<Longrightarrow> unique (replicate n a) = [a]"
  by (simp add: unique_def remdups_replicate_eq)

lemma unique_replicate_snoc: "0 < n \<Longrightarrow> a < b \<Longrightarrow> unique (replicate n a @ [b]) = [a, b]"
  by (simp add: unique_def remdups_replicate_snoc)

lemma one_hot_replicate: "one_hot (replicate n a) i = replicate n (if a = i then 1 else 0)"
  by (simp add: one_hot_def)

lemma one_hot_replicate_snoc:
  "one_hot (replicate n a @ [b]) i = replicate n (if a = i then 1 else 0) @ [if b = i then 1 else 0]"
  by (simp add: one_hot_def)

lemma dot_replicate: "dot (replicate n a) (replicate n b) = of_nat n * (a * b)"
  by (simp add: dot_def sum_list_replicate)

lemma dot_replicate_snoc:
  "dot (replicate n a @ [c]) (replicate n b @ [d]) = of_nat n * (a * b) + c * d"
  by (simp add: dot_def sum_list_replicate)

lemma assign_where_replicate_snoc:
  "assign_where t (replicate n a @ [b]) l v (replicate n x @ [y]) =
     replicate n (if a = l then cast t v else x) @ [if b = l then cast t v else y]"
  by (simp add: assign_where_def)

lemma both_count_replicate_snoc:
  "both_count (replicate n a @ [b]) (replicate n c @ [d]) i j =
     (if a = i \<and> c = j then n else 0) + (if b = i \<and> d = j then 1 else 0)"
  by (simp add: both_count_def)

lemma neither_count_replicate_snoc:
  "neither_count (replicate n a @ [b]) (replicate n c @ [d]) i j =
     (if a \<noteq> i \<and> c \<noteq> j then n else 0) + (if b \<noteq> i \<and> d \<noteq> j then 1 else 0)"
  by (simp add: neither_count_def)

lemma fold_max_const: "\<forall>x\<in>set xs. x = c \<Longrightarrow> fold max xs (c :: int) = c"
  by (induction xs) simp_all

lemma fold_min_const: "\<forall>x\<in>set xs. x = c \<Longrightarrow> fold min xs (c :: int) = c"
  by (induction xs) simp_all

lemma array_max_const: "xs \<noteq> [] \<Longrightarrow> \<forall>x\<in>set xs. x = c \<Longrightarrow> array_max xs = Inr c"
  by (cases xs) (simp_all add: fold_max_const)

lemma array_min_const: "xs \<noteq> [] \<Longrightarrow> \<forall>x\<in>set xs. x = c \<Longrightarrow> array_min xs = Inr c"
  by (cases xs) (simp_all add: fold_min_const)

lemma process_batch_unset_not_completed:
  "process_batch None idx samples \<noteq> Some Completed"
  by (induction samples arbitrary: idx) auto

lemma iou_of_maps_small:
  assumes len: "length P = H * W" and small: "H * W < 2 ^ 15"
    and i: "i < length (unique P)" and j: "j < length (unique T)"
  shows "iou_of_maps H W P T ! i ! j = spec_iou P T (unique P ! i) (unique T ! j)"
proof -
  have s: "length P < 2 ^ 15" using len small by simp
  have e: "iou_of_maps H W P T = iou_matrix (int (length P)) (label_vec P) (label_vec T)"
    unfolding iou_of_maps_def len ..
  show ?thesis
    unfolding e small_entry(1) [OF s i j] spec_iou_def ..
qed

text \<open>
  On maps of at most 32767 pixels the loop does what the specification says of it: every
  predicted label goes to the first ground-truth label of maximal IOU, stored in the element
  type of the predicted map.
\<close>

lemma relabel_selects_first_maximal_spec_iou_small:
  assumes wfA: "well_formed A" and wfB: "well_formed B"
    and sh: "shape A = shape B" and hw: "shape A = [H, W]" and small: "H * W < 2 ^ 15"
  shows "\<exists>out. guided_relabel A B = Inr out \<and>
           (\<forall>i<length (unique (data A)). \<exists>j<length (unique (data B)).
              (\<forall>j'<length (unique (data B)).
                  spec_iou (data A) (data B) (unique (data A) ! i) (unique (data B) ! j')
                  \<le> spec_iou (data A) (data B) (unique (data A) ! i) (unique (data B) ! j)) \<and>
              (\<forall>j'<j.
                  spec_iou (data A) (data B) (unique (data A) ! i) (unique (data B) ! j')
                  < spec_iou (data A) (data B) (unique (data A) ! i) (unique (data B) ! j)) \<and>
              (\<forall>k<length (data A). data A ! k = unique (data A) ! i \<longrightarrow>
                   data out ! k = cast (dtype A) (unique (data B) ! j)))"
proof -
  let ?P = "data A" and ?T = "data B"
  let ?iou = "iou_of_maps H W ?P ?T"
  have len: "length ?P = H * W" using wfA hw by (simp add: well_formed_def)
  obtain out where o: "guided_relabel A B = Inr \<lparr>shape = shape A, dtype = dtype A, data = out\<rparr>"
      "\<forall>i<length (unique ?P). \<exists>j<length (unique ?T).
          argmax (?iou ! i) = Inr j \<and>
          (\<forall>k<length ?P. ?P ! k = unique ?P ! i \<longrightarrow> out ! k = cast (dtype A) (unique ?T ! j))"
    using guided_relabel_closed [OF wfA wfB sh hw] by blast
  have "\<exists>j<length (unique ?T).
          (\<forall>j'<length (unique ?T).
              spec_iou ?P ?T (unique ?P ! i) (unique ?T ! j')
              \<le> spec_iou ?P ?T (unique ?P ! i) (unique ?T ! j)) \<and>
          (\<forall>j'<j. spec_iou ?P ?T (unique ?P ! i) (unique ?T ! j')
                  < spec_iou ?P ?T (unique ?P ! i) (unique ?T ! j)) \<and>
          (\<forall>k<length ?P. ?P ! k = unique ?P ! i \<longrightarrow> out ! k = cast (dtype A) (unique ?T ! j))"
    if i: "i < length (unique ?P)" for i
  proof -
    obtain j where j: "j < length (unique ?T)" "argmax (?iou ! i) = Inr j"
        "\<forall>k<length ?P. ?P ! k = unique ?P ! i \<longrightarrow> out ! k = cast (dtype A) (unique ?T ! j)"
      using o(2) i by blast
    have rl: "length (?iou ! i) = length (unique ?T)"
      using i by (simp add: iou_of_maps_def length_iou_row length_label_vec)
    then have "?iou ! i \<noteq> []" using j(1) by auto
    from argmax_spec [OF this] j(2) rl
    have m: "\<forall>j'<length (unique ?T). ?iou ! i ! j' \<le> ?iou ! i ! j"
      and f: "\<forall>j'<j. ?iou ! i ! j' < ?iou ! i ! j"
      by auto
    have e: "?iou ! i ! j' = spec_iou ?P ?T (unique ?P ! i) (unique ?T ! j')"
      if "j' < length (unique ?T)" for j'
      using that by (rule iou_of_maps_small [OF len small i])
    have "\<forall>j'<length (unique ?T).
            spec_iou ?P ?T (unique ?P ! i) (unique ?T ! j')
            \<le> spec_iou ?P ?T (unique ?P ! i) (unique ?T ! j)"
      using m e j(1) by simp
    moreover have "\<forall>j'<j. spec_iou ?P ?T (unique ?P ! i) (unique ?T ! j')
                          < spec_iou ?P ?T (unique ?P ! i) (unique ?T ! j)"
      using f e j(1) by simp
    ultimately show ?thesis using j(1,3) by blast
  qed
  then have "guided_relabel A B = Inr \<lparr>shape = shape A, dtype = dtype A, data = out\<rparr> \<and>
      (\<forall>i<length (unique ?P). \<exists>j<length (unique ?T).
          (\<forall>j'<length (unique ?T).
              spec_iou ?P ?T (unique ?P ! i) (unique ?T ! j')
              \<le> spec_iou ?P ?T (unique ?P ! i) (unique ?T ! j)) \<and>
          (\<forall>j'<j. spec_iou ?P ?T (unique ?P ! i) (unique ?T ! j')
                  < spec_iou ?P ?T (unique ?P ! i) (unique ?T ! j)) \<and>
          (\<forall>k<length ?P. ?P ! k = unique ?P ! i \<longrightarrow>
               data \<lparr>shape = shape A, dtype = dtype A, data = out\<rparr> ! k
                 = cast (dtype A) (unique ?T ! j)))"
    using o(1) by simp
  then show ?thesis by blast
qed

section \<open>The claims\<close>

text \<open>
  Claim C1, as stated: label value 0 is reserved and the IOU matching is computed only over
  the non-zero label values, so that the label 0 of the predicted map takes no part in it.
  The source has no such exclusion. On the maps \<open>[ [0, 0, 1] ]\<close> and \<open>[ [5, 5, 7] ]\<close>
  the label 0 is the first of the predicted labels, it has a row of its own in the IOU
  matrix, and its two pixels are rewritten to 5, the ground-truth label it overlaps.
\<close>

theorem zero_label_is_matched_counterexample:
  "unique [0, 0, 1] = [0, 1] \<and>
   iou_of_maps 1 3 [0, 0, 1] [5, 5, 7] = [ [1, 0], [0, 1] ] \<and>
   guided_relabel \<lparr>shape = [1, 3], dtype = Int64, data = [0, 0, 1]\<rparr>
                  \<lparr>shape = [1, 3], dtype = Int64, data = [5, 5, 7]\<rparr>
     = Inr \<lparr>shape = [1, 3], dtype = Int64, data = [5, 5, 7]\<rparr>"
  by code_simp

text \<open>
  Claim C1, amended: for every pair of equal-shape label maps the matching is computed over
  all distinct label values of both maps, 0 included. The IOU matrix has one row for each
  distinct value of the predicted map and one column for each distinct value of the ground
  truth, and when 0 occurs in the predicted map, its pixels are rewritten to the ground-truth
  value that the row of 0 selects, converted to the element type of the predicted map.
\<close>

theorem matching_ranges_over_all_labels:
  assumes "well_formed A" and "well_formed B" and "shape A = shape B" and "shape A = [H, W]"
  shows "set (unique (data A)) = set (data A) \<and> set (unique (data B)) = set (data B) \<and>
         length (iou_of_maps H W (data A) (data B)) = length (unique (data A)) \<and>
         (\<forall>i<length (unique (data A)).
             length (iou_of_maps H W (data A) (data B) ! i) = length (unique (data B))) \<and>
         (0 \<in> set (data A) \<longrightarrow>
            (\<exists>i<length (unique (data A)). \<exists>j<length (unique (data B)). \<exists>out.
               unique (data A) ! i = 0 \<and>
               argmax (iou_of_maps H W (data A) (data B) ! i) = Inr j \<and>
               guided_relabel A B = Inr out \<and>
               (\<forall>k<length (data A). data A ! k = 0 \<longrightarrow>
                    data out ! k = cast (dtype A) (unique (data B) ! j))))"
proof -
  let ?iou = "iou_of_maps H W (data A) (data B)"
  obtain out where o: "guided_relabel A B = Inr \<lparr>shape = shape A, dtype = dtype A, data = out\<rparr>"
      "\<forall>i<length (unique (data A)). \<exists>j<length (unique (data B)).
          argmax (?iou ! i) = Inr j \<and>
          (\<forall>k<length (data A). data A ! k = unique (data A) ! i \<longrightarrow>
               out ! k = cast (dtype A) (unique (data B) ! j))"
    using guided_relabel_closed [OF assms] by blast
  have dims: "length ?iou = length (unique (data A)) \<and>
      (\<forall>i<length (unique (data A)). length (?iou ! i) = length (unique (data B)))"
    by (simp add: iou_of_maps_def length_iou_matrix length_iou_row length_label_vec)
  have zero: "\<exists>i<length (unique (data A)). \<exists>j<length (unique (data B)). \<exists>out.
               unique (data A) ! i = 0 \<and> argmax (?iou ! i) = Inr j \<and>
               guided_relabel A B = Inr out \<and>
               (\<forall>k<length (data A). data A ! k = 0 \<longrightarrow>
                    data out ! k = cast (dtype A) (unique (data B) ! j))"
    if "0 \<in> set (data A)"
  proof -
    from that have "0 \<in> set (unique (data A))" by (simp add: set_unique)
    then obtain i where i: "i < length (unique (data A))" "unique (data A) ! i = 0"
      by (auto simp: in_set_conv_nth)
    then obtain j where j: "j < length (unique (data B))" "argmax (?iou ! i) = Inr j"
        "\<forall>k<length (data A). data A ! k = unique (data A) ! i \<longrightarrow>
             out ! k = cast (dtype A) (unique (data B) ! j)"
      using o(2) by blast
    have "\<forall>k<length (data A). data A ! k = 0 \<longrightarrow>
            data \<lparr>shape = shape A, dtype = dtype A, data = out\<rparr> ! k
              = cast (dtype A) (unique (data B) ! j)"
      using j(3) i(2) by simp
    then show ?thesis using i j(1,2) o(1) by blast
  qed
  show ?thesis
    using dims zero by (simp add: set_unique)
qed

theorem matching_ranges_over_all_labels_witness:
  "well_formed \<lparr>shape = [1, 3], dtype = UInt8, data = [0, 0, 1]\<rparr> \<and>
   well_formed \<lparr>shape = [1, 3], dtype = Int64, data = [5, 5, 7]\<rparr> \<and>
   0 \<in> set (data \<lparr>shape = [1, 3], dtype = UInt8, data = [0, 0, 1]\<rparr>) \<and>
   (\<exists>i<length (unique (data \<lparr>shape = [1, 3], dtype = UInt8, data = [0, 0, 1]\<rparr>)).
    \<exists>j<length (unique (data \<lparr>shape = [1, 3], dtype = Int64, data = [5, 5, 7]\<rparr>)). \<exists>out.
       unique (data \<lparr>shape = [1, 3], dtype = UInt8, data = [0, 0, 1]\<rparr>) ! i = 0 \<and>
       argmax (iou_of_maps 1 3 (data \<lparr>shape = [1, 3], dtype = UInt8, data = [0, 0, 1]\<rparr>)
                 (data \<lparr>shape = [1, 3], dtype = Int64, data = [5, 5, 7]\<rparr>) ! i) = Inr j \<and>
       guided_relabel \<lparr>shape = [1, 3], dtype = UInt8, data = [0, 0, 1]\<rparr>
                      \<lparr>shape = [1, 3], dtype = Int64, data = [5, 5, 7]\<rparr>
         = Inr out \<and>
       (\<forall>k<length (data \<lparr>shape = [1, 3], dtype = UInt8, data = [0, 0, 1]\<rparr>).
           data \<lparr>shape = [1, 3], dtype = UInt8, data = [0, 0, 1]\<rparr> ! k = 0 \<longrightarrow>
           data out ! k
             = cast (dtype \<lparr>shape = [1, 3], dtype = UInt8, data = [0, 0, 1]\<rparr>)
                 (unique (data \<lparr>shape = [1, 3], dtype = Int64, data = [5, 5, 7]\<rparr>) ! j)))"
proof -
  let ?A = "\<lparr>shape = [1, 3], dtype = UInt8, data = [0, 0, 1]\<rparr>"
  let ?B = "\<lparr>shape = [1, 3], dtype = Int64, data = [5, 5, 7]\<rparr>"
  have a: "well_formed ?A" and b: "well_formed ?B"
    by (simp_all add: well_formed_def representable_def)
  have s: "shape ?A = shape ?B" and h: "shape ?A = [1, 3]" by simp_all
  have z: "0 \<in> set (data ?A)" by simp
  show ?thesis
    using matching_ranges_over_all_labels [OF a b s h] a b z by blast
qed

text \<open>
  Claim C2. For every non-empty label map A that does not consist of zeros only,
  \<open>guided_relabel(A, A)\<close> returns a map equal to A. The source breaks this on maps of more
  than 32767 pixels, where a pixel count no longer fits the \<open>int16\<close> the one-hot vectors
  are multiplied in. On the 256-by-256 map whose first 65535 pixels carry the label 1 and
  whose last pixel carries the label 2, the count 65535 of the label 1 wraps to -1, the IOU
  of the label 1 with itself is negative, and the aligner rewrites every pixel to 2.
  On maps of at most 32767 pixels the property holds (\<open>guided_relabel_self_small\<close>).
\<close>

theorem self_relabel_overflow_256_by_256:
  "guided_relabel \<lparr>shape = [256, 256], dtype = Int64, data = replicate 65535 1 @ [2]\<rparr>
                  \<lparr>shape = [256, 256], dtype = Int64, data = replicate 65535 1 @ [2]\<rparr>
   = Inr \<lparr>shape = [256, 256], dtype = Int64, data = replicate 65535 2 @ [2]\<rparr>"
proof -
  have iou: "iou_of_maps 256 256 (replicate 65535 1 @ [2]) (replicate 65535 1 @ [2])
             = [ [- (1 / 65535), 0], [0, 1 / 65537] ]"
    by (simp add: iou_of_maps_def iou_matrix_def intersection_matrix_def union_matrix_def
      matmul_T_def complement_def label_vec_def unique_replicate_snoc one_hot_replicate_snoc
      dot_replicate_snoc result_bits_def wrap_signed_def)
  have c: "cast Int64 2 = 2"
    by (rule cast_representable) (simp add: representable_def)
  show ?thesis
    by (simp add: guided_relabel_def iou unique_replicate_snoc enumerate_list_def
        index_checked_def argmax_def assign_where_replicate_snoc upt_rec c)
qed




text \<open>
  Claim C4. For every pair of equal-shape label maps and for all image sizes, every entry of
  the IOU matrix lies between 0 and 1 and every union is at least 1. The source breaks this
  on maps of more than 32767 pixels: on two 200-by-200 maps that carry the label 1
  everywhere, the intersection 40000 wraps to -25536 in \<open>int16\<close>, the union is 40000, and
  the only entry of the IOU matrix is -399/625. On maps of at most 32767 pixels the property
  holds (\<open>iou_unit_interval_small\<close>), and no union is 0 at any size
  (\<open>union_never_zero\<close>).
\<close>

theorem iou_overflow_200_by_200:
  "iou_of_maps 200 200 (replicate 40000 1) (replicate 40000 1) = [ [- (399 / 625)] ]"
  by (simp add: iou_of_maps_def iou_matrix_def intersection_matrix_def union_matrix_def
      matmul_T_def complement_def label_vec_def unique_replicate one_hot_replicate dot_replicate
      result_bits_def wrap_signed_def)

text \<open>
  Claim C5. For each distinct predicted label, all pixels that carry it are rewritten to the
  ground-truth label whose IOU with it is maximal, the first one in ascending order on ties.
  The source breaks this on maps of more than 32767 pixels. On the 256-by-256 predicted map
  whose first 65535 pixels carry the label 1 and whose last pixel carries the label 2, and
  the ground truth that carries 5 where the prediction carries 1 and 6 where it carries 2,
  the IOU of the label 1 is 1 with the label 5 and 0 with the label 6; the matrix the source
  computes holds -1/65535 and 0 instead, because the count 65535 wraps to -1 in \<open>int16\<close>,
  and every pixel of the label 1 is rewritten to 6. On maps of at most 32767 pixels the
  property holds, up to the conversion of the label to the element type of the predicted map
  (\<open>relabel_selects_first_maximal_spec_iou_small\<close>).
\<close>

theorem maximal_iou_overflow_256_by_256:
  "spec_iou (replicate 65535 1 @ [2]) (replicate 65535 5 @ [6]) 1 5 = 1 \<and>
   spec_iou (replicate 65535 1 @ [2]) (replicate 65535 5 @ [6]) 1 6 = 0 \<and>
   iou_of_maps 256 256 (replicate 65535 1 @ [2]) (replicate 65535 5 @ [6])
     = [ [- (1 / 65535), 0], [0, 1 / 65537] ] \<and>
   guided_relabel \<lparr>shape = [256, 256], dtype = Int64, data = replicate 65535 1 @ [2]\<rparr>
                  \<lparr>shape = [256, 256], dtype = Int64, data = replicate 65535 5 @ [6]\<rparr>
   = Inr \<lparr>shape = [256, 256], dtype = Int64, data = replicate 65535 6 @ [6]\<rparr>"
proof -
  have iou: "iou_of_maps 256 256 (replicate 65535 1 @ [2]) (replicate 65535 5 @ [6])
             = [ [- (1 / 65535), 0], [0, 1 / 65537] ]"
    by (simp add: iou_of_maps_def iou_matrix_def intersection_matrix_def union_matrix_def
      matmul_T_def complement_def label_vec_def unique_replicate_snoc one_hot_replicate_snoc
      dot_replicate_snoc result_bits_def wrap_signed_def)
  have c: "cast Int64 6 = 6"
    by (rule cast_representable) (simp add: representable_def)
  have r: "guided_relabel \<lparr>shape = [256, 256], dtype = Int64, data = replicate 65535 1 @ [2]\<rparr>
                  \<lparr>shape = [256, 256], dtype = Int64, data = replicate 65535 5 @ [6]\<rparr>
   = Inr \<lparr>shape = [256, 256], dtype = Int64, data = replicate 65535 6 @ [6]\<rparr>"
    by (simp add: guided_relabel_def iou unique_replicate_snoc enumerate_list_def
        index_checked_def argmax_def assign_where_replicate_snoc upt_rec c)
  have s1: "spec_iou (replicate 65535 1 @ [2]) (replicate 65535 5 @ [6]) 1 5 = 1"
    by (simp add: spec_iou_def both_count_replicate_snoc neither_count_replicate_snoc)
  have s2: "spec_iou (replicate 65535 1 @ [2]) (replicate 65535 5 @ [6]) 1 6 = 0"
    by (simp add: spec_iou_def both_count_replicate_snoc neither_count_replicate_snoc)
  show ?thesis using s1 s2 iou r by blast
qed

text \<open>
  Claim C6. On the 4-by-4 maps \<open>predicted = [ [1,1,2,2],[1,1,2,2],[3,3,0,0],[3,3,0,0] ]\<close> and
  \<open>ground_truth = [ [5,5,6,6],[5,5,6,6],[7,7,0,0],[7,7,0,0] ]\<close> the aligner returns the map
  in which every 1 has become 5, every 2 has become 6, every 3 has become 7 and every 0 is
  still 0, whatever the integer element types of the two maps.
\<close>

theorem guided_relabel_scenario:
  "guided_relabel
     \<lparr>shape = [4, 4], dtype = tp, data = [1, 1, 2, 2, 1, 1, 2, 2, 3, 3, 0, 0, 3, 3, 0, 0]\<rparr>
     \<lparr>shape = [4, 4], dtype = tt, data = [5, 5, 6, 6, 5, 5, 6, 6, 7, 7, 0, 0, 7, 7, 0, 0]\<rparr>
   = Inr \<lparr>shape = [4, 4], dtype = tp, data = [5, 5, 6, 6, 5, 5, 6, 6, 7, 7, 0, 0, 7, 7, 0, 0]\<rparr>"
proof (cases tp)
  case Int8
  show ?thesis unfolding Int8 by code_simp
next
  case Int16
  show ?thesis unfolding Int16 by code_simp
next
  case Int32
  show ?thesis unfolding Int32 by code_simp
next
  case Int64
  show ?thesis unfolding Int64 by code_simp
next
  case UInt8
  show ?thesis unfolding UInt8 by code_simp
next
  case UInt16
  show ?thesis unfolding UInt16 by code_simp
next
  case UInt32
  show ?thesis unfolding UInt32 by code_simp
next
  case UInt64
  show ?thesis unfolding UInt64 by code_simp
qed

text \<open>
  Claim C7. The aligner stops at its shape assertion, without an output, for every pair of
  arrays whose shapes differ, and for every pair of two-dimensional label maps of equal
  shape it raises nothing and returns a label map of that shape.
\<close>

theorem guided_relabel_fails_iff_shapes_differ:
  "(shape A \<noteq> shape B \<longrightarrow> guided_relabel A B = Inl AssertionError) \<and>
   (well_formed A \<and> well_formed B \<and> shape A = shape B \<and> length (shape A) = 2 \<longrightarrow>
      (\<exists>out. guided_relabel A B = Inr out \<and> shape out = shape A \<and> well_formed out))"
proof (intro conjI impI)
  assume "shape A \<noteq> shape B"
  then show "guided_relabel A B = Inl AssertionError"
    by (simp add: guided_relabel_def)
next
  assume a: "well_formed A \<and> well_formed B \<and> shape A = shape B \<and> length (shape A) = 2"
  then obtain H W where hw: "shape A = [H, W]"
    by (cases "shape A" rule: list.exhaust; simp; metis length_0_conv length_Suc_conv)
  obtain out where o: "guided_relabel A B = Inr \<lparr>shape = shape A, dtype = dtype A, data = out\<rparr>"
      "length out = length (data A)"
      "\<forall>i<length (unique (data A)). \<exists>j<length (unique (data B)).
          argmax (iou_of_maps H W (data A) (data B) ! i) = Inr j \<and>
          (\<forall>k<length (data A). data A ! k = unique (data A) ! i \<longrightarrow>
               out ! k = cast (dtype A) (unique (data B) ! j))"
    using guided_relabel_closed [of A B H W] a hw by blast
  have "representable (dtype A) (out ! k)" if k: "k < length out" for k
  proof -
    have "data A ! k \<in> set (unique (data A))"
      using k o(2) by (simp add: set_unique)
    then obtain i where i: "i < length (unique (data A))" "unique (data A) ! i = data A ! k"
      by (auto simp: in_set_conv_nth)
    then obtain j where "out ! k = cast (dtype A) (unique (data B) ! j)"
      using o(3) k o(2) by fastforce
    then show ?thesis by (simp add: representable_cast)
  qed
  then have "list_all (representable (dtype A)) out"
    by (auto simp: list_all_iff in_set_conv_nth)
  then have "well_formed \<lparr>shape = shape A, dtype = dtype A, data = out\<rparr>"
    using a o(2) by (simp add: well_formed_def)
  then show "\<exists>out. guided_relabel A B = Inr out \<and> shape out = shape A \<and> well_formed out"
    using o(1) by (intro exI [of _ "\<lparr>shape = shape A, dtype = dtype A, data = out\<rparr>"]) simp
qed

theorem guided_relabel_fails_iff_shapes_differ_witness:
  "shape \<lparr>shape = [2, 2], dtype = Int64, data = [1, 1, 2, 2]\<rparr>
     \<noteq> shape \<lparr>shape = [1, 4], dtype = Int64, data = [5, 5, 6, 6]\<rparr> \<and>
   guided_relabel \<lparr>shape = [2, 2], dtype = Int64, data = [1, 1, 2, 2]\<rparr>
                  \<lparr>shape = [1, 4], dtype = Int64, data = [5, 5, 6, 6]\<rparr>
     = Inl AssertionError \<and>
   well_formed \<lparr>shape = [2, 2], dtype = Int64, data = [1, 1, 2, 2]\<rparr> \<and>
   well_formed \<lparr>shape = [2, 2], dtype = Int64, data = [5, 5, 6, 6]\<rparr> \<and>
   length (shape \<lparr>shape = [2, 2], dtype = Int64, data = [1, 1, 2, 2]\<rparr>) = 2 \<and>
   (\<exists>out. guided_relabel \<lparr>shape = [2, 2], dtype = Int64, data = [1, 1, 2, 2]\<rparr>
                         \<lparr>shape = [2, 2], dtype = Int64, data = [5, 5, 6, 6]\<rparr>
            = Inr out \<and> shape out = [2, 2] \<and> well_formed out)"
proof -
  let ?A = "\<lparr>shape = [2, 2], dtype = Int64, data = [1, 1, 2, 2]\<rparr>"
  let ?B = "\<lparr>shape = [1, 4], dtype = Int64, data = [5, 5, 6, 6]\<rparr>"
  let ?C = "\<lparr>shape = [2, 2], dtype = Int64, data = [5, 5, 6, 6]\<rparr>"
  have d: "shape ?A \<noteq> shape ?B" by simp
  have w: "well_formed ?A \<and> well_formed ?C \<and> shape ?A = shape ?C \<and> length (shape ?A) = 2"
    by (simp add: well_formed_def representable_def)
  have 1: "guided_relabel ?A ?B = Inl AssertionError"
    using guided_relabel_fails_iff_shapes_differ [of ?A ?B] d by blast
  have 2: "\<exists>out. guided_relabel ?A ?C = Inr out \<and> shape out = shape ?A \<and> well_formed out"
    using guided_relabel_fails_iff_shapes_differ [of ?A ?C] w by blast
  show ?thesis using d w 1 2 by simp
qed

text \<open>
  Claim C8, as stated: with a dataset name that is neither \<open>retina\<close> nor \<open>berkeley\<close>
  the hyperparameters are never assigned, the dispatch itself does not fail, and the program
  fails later, at the first use of the hyperparameters during batch processing. When the
  three result folders hold no files, the batch loop has no iteration, and the first use of
  the hyperparameters, where the run fails, is the summary after the loop.
\<close>

theorem unset_hparams_fail_after_empty_batch_counterexample:
  "run_metrics ''mnist'' [] 0 0 = Failed NameError Summary"
  by (simp add: run_metrics_def select_hparams_def)

text \<open>
  Claim C8, amended: with a dataset name that is neither \<open>retina\<close> nor \<open>berkeley\<close>
  the hyperparameters are never assigned, the dispatch itself does not fail, and the run
  never completes. When the file-count assertions pass, it fails with a \<open>NameError\<close> at the
  first use of the hyperparameters: in the first iteration of the batch loop, at the call of
  \<open>segment_diffusion\<close>, when there is a first image whose archives load and agree, and at
  the summary after the loop when there is no image.
\<close>

theorem unset_hparams_fail_at_first_use:
  assumes "dataset_name \<noteq> ''retina''" and "dataset_name \<noteq> ''berkeley''"
  shows "select_hparams dataset_name = None \<and>
         run_metrics dataset_name baselines n_kmeans n_diffusion \<noteq> Completed \<and>
         (length baselines = n_kmeans \<and> length baselines = n_diffusion \<longrightarrow>
            (baselines = [] \<longrightarrow>
               run_metrics dataset_name baselines n_kmeans n_diffusion = Failed NameError Summary) \<and>
            (\<forall>s rest. baselines = s # rest \<and> loads_ok s \<and> consistent s \<longrightarrow>
               run_metrics dataset_name baselines n_kmeans n_diffusion
                 = Failed NameError (SegmentDiffusion 0)))"
proof -
  have n: "select_hparams dataset_name = None"
    using assms by (simp add: select_hparams_def)
  have "run_metrics dataset_name baselines n_kmeans n_diffusion \<noteq> Completed"
    using process_batch_unset_not_completed [of 0 baselines]
    by (auto simp: run_metrics_def n split: option.splits)
  moreover have "run_metrics dataset_name [] 0 0 = Failed NameError Summary"
    by (simp add: run_metrics_def n)
  moreover have "run_metrics dataset_name (s # rest) (length (s # rest)) (length (s # rest))
                   = Failed NameError (SegmentDiffusion 0)"
    if "loads_ok s" "consistent s" for s rest
    using that by (simp add: run_metrics_def n)
  ultimately show ?thesis using n by auto
qed

theorem unset_hparams_fail_at_first_use_witness:
  "''mnist'' \<noteq> ''retina'' \<and> ''mnist'' \<noteq> ''berkeley'' \<and>
   select_hparams ''mnist'' = None \<and>
   run_metrics ''mnist''
     [\<lparr>loads_ok = True, consistent = True, segment_ok = True, metrics_ok = True\<rparr>] 1 1
     = Failed NameError (SegmentDiffusion 0)"
proof -
  have a: "''mnist'' \<noteq> ''retina''" and b: "''mnist'' \<noteq> ''berkeley''" by simp_all
  show ?thesis
    using unset_hparams_fail_at_first_use [OF a b,
        of "[\<lparr>loads_ok = True, consistent = True, segment_ok = True, metrics_ok = True\<rparr>]" 1 1]
    by simp
qed




text \<open>
  Claim C10. When both arrays given to \<open>range_aware_ssim\<close> hold one common constant value
  in every element, the data range it computes is exactly 0, and this 0 is what the
  structural-similarity routine is called with: nothing checks the range first.
\<close>

theorem range_aware_ssim_constant_arrays:
  assumes "data a \<noteq> []" and "data b \<noteq> []"
    and "\<forall>x\<in>set (data a). x = c" and "\<forall>x\<in>set (data b). x = c"
  shows "data_range a b = Inr 0 \<and> range_aware_ssim ssim a b = ssim a b 0"
proof -
  have "array_max (data a) = Inr c" "array_min (data a) = Inr c"
    using assms(1,3) by (simp_all add: array_max_const array_min_const)
  moreover have "array_max (data b) = Inr c" "array_min (data b) = Inr c"
    using assms(2,4) by (simp_all add: array_max_const array_min_const)
  moreover have "scalar_subtract (c, s) (c, t) = 0" for s t
    by (cases "promote_types s t") (simp_all add: scalar_subtract_def cast_zero)
  ultimately have "data_range a b = Inr 0"
    by (simp add: data_range_def py_max_def py_min_def)
  then show ?thesis by (simp add: range_aware_ssim_def)
qed

theorem range_aware_ssim_constant_arrays_witness:
  "data_range \<lparr>shape = [2, 2], dtype = Int8, data = [3, 3, 3, 3]\<rparr>
              \<lparr>shape = [2, 2], dtype = UInt16, data = [3, 3, 3, 3]\<rparr> = Inr 0 \<and>
   range_aware_ssim (\<lambda>a b r. if r = 0 then Inl ExternalError else Inr r)
     \<lparr>shape = [2, 2], dtype = Int8, data = [3, 3, 3, 3]\<rparr>
     \<lparr>shape = [2, 2], dtype = UInt16, data = [3, 3, 3, 3]\<rparr> = Inl ExternalError"
  using range_aware_ssim_constant_arrays
    [of "\<lparr>shape = [2, 2], dtype = Int8, data = [3, 3, 3, 3]\<rparr>"
        "\<lparr>shape = [2, 2], dtype = UInt16, data = [3, 3, 3, 3]\<rparr>" 3
        "\<lambda>a b r. if r = 0 then Inl ExternalError else Inr r"]
  by simp

end
